theory Spec2Isabelle
  imports Main
begin

section \<open>Values, errors and rules\<close>

text \<open>
  The validation engine of \<^verbatim>\<open>create-validator.js\<close> and \<^verbatim>\<open>util.js\<close> works on
  JavaScript values. The model keeps the values that plain data and validation results
  are made of. Numbers are integers (no \<^verbatim>\<open>NaN\<close>, no fractions); an object is the list
  of its own enumerable properties in enumeration order, read with \<open>map_of\<close>.
  Reading an inherited property (\<^verbatim>\<open>toString\<close>, \<^verbatim>\<open>constructor\<close>, \<^verbatim>\<open>__proto__\<close>, ...)
  is outside the model: a name that is not an own property reads as \<^verbatim>\<open>undefined\<close>.
\<close>

datatype jsval =
    Undefined
  | Null
  | Bool bool
  | Num int
  | Str string
  | Arr "jsval list"
  | Obj "(string \<times> jsval) list"

text \<open>
  A promise either resolves with a value or rejects. A synchronous throw inside a
  \<^verbatim>\<open>then\<close> callback rejects the promise as well, so a throw and a rejection are
  both \<open>Inl\<close>. The only
  error the engine raises itself is the \<^verbatim>\<open>TypeError\<close> of reading a property of
  \<^verbatim>\<open>undefined\<close> or \<^verbatim>\<open>null\<close>; every other failure is a rule's own rejection.
\<close>

datatype error = TypeError | Rejection jsval

text \<open>
  A rule is a function of \<^verbatim>\<open>(value, data)\<close> that returns a value or a promise. Its
  side effects act on a world state \<open>'s\<close>: the rule takes the world in which it is
  invoked and returns the world in which its result has settled. Rules do not mutate
  the data they are given.
\<close>

type_synonym 's rule = "jsval \<Rightarrow> jsval \<Rightarrow> 's \<Rightarrow> (error + jsval) \<times> 's"

text \<open>
  What the combinators accept as \<^verbatim>\<open>rules\<close>: one rule or an array of rules
  (\<^verbatim>\<open>castArray\<close> makes a list of either), or a plain object mapping attribute names
  to further rules (\<^verbatim>\<open>isPlainObject(rules)\<close>). The attribute list of a tree is in the
  enumeration order of the object.
\<close>

datatype 's rules = Single "'s rule" | Sequence "'s rule list"

datatype 's rulespec = Rules "'s rules" | Tree "(string \<times> 's rulespec) list"

text \<open>
  The predicate of \<^verbatim>\<open>when\<close>: a function (\<^verbatim>\<open>isFunction(predicate)\<close>), called with
  \<^verbatim>\<open>(value, data)\<close>, or any other value, among them a promise that is awaited.
\<close>

datatype 's predicate = PredFunction "'s rule" | PredValue jsval | PredPromise "error + jsval"

type_synonym report = "(string \<times> jsval) list"

text \<open>
  An executor is one of the functions \<^verbatim>\<open>validateFunction\<close> that
  \<^verbatim>\<open>createValidator\<close> builds per attribute. It shares the object \<^verbatim>\<open>errors\<close> with
  its siblings, so it takes and returns that object beside the world; the first
  component is what its promise settles with.
\<close>

type_synonym 's executor = "report \<Rightarrow> 's \<Rightarrow> (error + jsval) \<times> report \<times> 's"

section \<open>The helpers taken from lodash and the language\<close>

fun isPlainObject :: "jsval \<Rightarrow> bool" where
  "isPlainObject (Obj kvs) = True"
| "isPlainObject _ = False"

text \<open>
  \<^verbatim>\<open>isEmpty\<close>: arrays and strings are empty when their length is zero, objects when
  they have no own enumerable key, every other value is empty.
\<close>

fun isEmpty :: "jsval \<Rightarrow> bool" where
  "isEmpty (Obj kvs) = (kvs = [])"
| "isEmpty (Arr xs) = (xs = [])"
| "isEmpty (Str cs) = (cs = [])"
| "isEmpty _ = True"

text \<open>\<^verbatim>\<open>Boolean(x)\<close>, and so \<^verbatim>\<open>!!x\<close>.\<close>

fun truthy :: "jsval \<Rightarrow> bool" where
  "truthy Undefined = False"
| "truthy Null = False"
| "truthy (Bool b) = b"
| "truthy (Num n) = (n \<noteq> 0)"
| "truthy (Str cs) = (cs \<noteq> [])"
| "truthy (Arr xs) = True"
| "truthy (Obj kvs) = True"

definition isDigit :: "char \<Rightarrow> bool" where
  "isDigit c = (48 \<le> (of_char c :: nat) \<and> (of_char c :: nat) \<le> 57)"

text \<open>A property name that is an array index: decimal digits without a leading zero.\<close>

definition parseIndex :: "string \<Rightarrow> nat option" where
  "parseIndex k =
     (if k = [] \<or> \<not> list_all isDigit k \<or> (hd k = CHR ''0'' \<and> length k > 1) then None
      else Some (foldl (\<lambda>n c. 10 * n + (of_char c - 48)) 0 k))"

text \<open>
  \<^verbatim>\<open>currentData[keyToValidate]\<close>. Reading a property of \<^verbatim>\<open>undefined\<close> or
  \<^verbatim>\<open>null\<close> throws; arrays and strings have their indices and \<^verbatim>\<open>length\<close>; a missing
  property reads as \<^verbatim>\<open>undefined\<close>.
\<close>

fun getProp :: "jsval \<Rightarrow> string \<Rightarrow> error + jsval" where
  "getProp Undefined k = Inl TypeError"
| "getProp Null k = Inl TypeError"
| "getProp (Obj kvs) k = Inr (case map_of kvs k of None \<Rightarrow> Undefined | Some v \<Rightarrow> v)"
| "getProp (Arr xs) k =
     Inr (if k = ''length'' then Num (int (length xs))
          else case parseIndex k of
                 None \<Rightarrow> Undefined
               | Some i \<Rightarrow> if i < length xs then xs ! i else Undefined)"
| "getProp (Str cs) k =
     Inr (if k = ''length'' then Num (int (length cs))
          else case parseIndex k of
                 None \<Rightarrow> Undefined
               | Some i \<Rightarrow> if i < length cs then Str [cs ! i] else Undefined)"
| "getProp (Bool b) k = Inr Undefined"
| "getProp (Num n) k = Inr Undefined"

text \<open>
  Defining an own property: an existing key keeps its place, a new one goes last.
\<close>

fun ownProp :: "report \<Rightarrow> string \<Rightarrow> jsval \<Rightarrow> report" where
  "ownProp [] k v = [(k, v)]"
| "ownProp ((k', v') # kvs) k v =
     (if k' = k then (k, v) # kvs else (k', v') # ownProp kvs k v)"

text \<open>
  \<^verbatim>\<open>errors[key] = v\<close> on the object literal \<^verbatim>\<open>errors\<close>. The name \<^verbatim>\<open>__proto__\<close> is
  the accessor of \<^verbatim>\<open>Object.prototype\<close>: its setter changes the prototype of the object
  (or does nothing for a primitive) and adds no own key. Every other name becomes an
  own property.
\<close>

fun setProp :: "report \<Rightarrow> string \<Rightarrow> jsval \<Rightarrow> report" where
  "setProp errors k v = (if k = ''__proto__'' then errors else ownProp errors k v)"

fun castArray :: "'s rules \<Rightarrow> 's rule list" where
  "castArray (Single r) = [r]"
| "castArray (Sequence rs) = rs"

text \<open>
  \<^verbatim>\<open>Array.prototype.concat.bind(result)\<close> applied to one value: an array argument is
  spread into the result, any other value is appended.
\<close>

definition concat_js :: "jsval list \<Rightarrow> jsval \<Rightarrow> jsval list" where
  "concat_js result x = (case x of Arr ys \<Rightarrow> result @ ys | _ \<Rightarrow> result @ [x])"

section \<open>The rule runners of util.js\<close>

definition containsError :: "jsval \<Rightarrow> bool" where
  "containsError validationResult = (validationResult \<noteq> Undefined)"

text \<open>
  \<^verbatim>\<open>firstError\<close> reduces the rules over a promise chain that starts resolved with
  \<^verbatim>\<open>undefined\<close>. A rejected accumulator skips the callback; an accumulator that holds
  an error is returned as it is; otherwise the rule runs in the world the accumulator
  settled in.
\<close>

definition firstError :: "'s rules \<Rightarrow> 's rule" where
  "firstError rules = (let rulesToApply = castArray rules in
     (\<lambda>val data s.
        foldl (\<lambda>acc rule.
                 case acc of
                   (Inl e, s') \<Rightarrow> (Inl e, s')
                 | (Inr err, s') \<Rightarrow> if err \<noteq> Undefined then acc else rule val data s')
              (Inr Undefined, s) rulesToApply))"

text \<open>\<^verbatim>\<open>allErrors\<close> resolves with an array, kept here as the list of its elements.\<close>

definition allErrors :: "'s rules \<Rightarrow> jsval \<Rightarrow> jsval \<Rightarrow> 's \<Rightarrow> (error + jsval list) \<times> 's" where
  "allErrors rules = (let rulesToApply = castArray rules in
     (\<lambda>val data s.
        foldl (\<lambda>acc rule.
                 case acc of
                   (Inl e, s') \<Rightarrow> (Inl e, s')
                 | (Inr result, s') \<Rightarrow>
                     (case rule val data s' of
                        (Inl e, s'') \<Rightarrow> (Inl e, s'')
                      | (Inr x, s'') \<Rightarrow> (Inr (concat_js result x), s'')))
              (Inr [], s) rulesToApply))"

text \<open>
  \<^verbatim>\<open>oneOfRules\<close>: \<^verbatim>\<open>errors.filter(err => !err).length === 0\<close> guards the return of
  \<^verbatim>\<open>errors.filter(err => !!err)[0]\<close>; index 0 of an empty array is \<^verbatim>\<open>undefined\<close>, and
  so is the result of a callback that returns nothing.
\<close>

definition oneOfRules :: "'s rules \<Rightarrow> 's rule" where
  "oneOfRules rules = (let rulesToApply = castArray rules in
     (\<lambda>val data s.
        case allErrors (Sequence rulesToApply) val data s of
          (Inl e, s') \<Rightarrow> (Inl e, s')
        | (Inr errors, s') \<Rightarrow>
            if length (filter (\<lambda>err. \<not> truthy err) errors) = 0
            then (Inr (case filter (\<lambda>err. truthy err) errors of
                         [] \<Rightarrow> Undefined
                       | e # _ \<Rightarrow> e), s')
            else (Inr Undefined, s')))"

section \<open>The validator builder of create-validator.js\<close>

definition returnUndefinedOnSuccess :: "report \<Rightarrow> jsval" where
  "returnUndefinedOnSuccess errors = (if length errors = 0 then Undefined else Obj errors)"

definition storeErrors :: "string \<Rightarrow> report \<Rightarrow> jsval \<Rightarrow> report" where
  "storeErrors keyToValidate errors validationResult =
     (if containsError validationResult
      then setProp errors keyToValidate validationResult
      else errors)"

text \<open>
  \<^verbatim>\<open>promise.then(storeErrors)\<close>: a rejection passes through, a result is handed to
  \<^verbatim>\<open>storeErrors\<close>, whose own return value is \<^verbatim>\<open>undefined\<close>.
\<close>

definition thenStore :: "string \<Rightarrow> report \<Rightarrow> (error + jsval) \<times> 's \<Rightarrow> (error + jsval) \<times> report \<times> 's" where
  "thenStore keyToValidate errors p =
     (case p of
        (Inl e, s') \<Rightarrow> (Inl e, errors, s')
      | (Inr validationResult, s') \<Rightarrow>
          (Inr Undefined, storeErrors keyToValidate errors validationResult, s'))"

text \<open>
  \<^verbatim>\<open>map\<close> calls its callback for every attribute before any executor runs; the first
  property read that throws ends the call.
\<close>

fun sequenceE :: "(error + 'a) list \<Rightarrow> error + 'a list" where
  "sequenceE [] = Inr []"
| "sequenceE (Inl e # xs) = Inl e"
| "sequenceE (Inr x # xs) = (case sequenceE xs of Inl e \<Rightarrow> Inl e | Inr ys \<Rightarrow> Inr (x # ys))"

text \<open>
  \<^verbatim>\<open>Promise.mapSeries(executors, executor => executor())\<close>: each executor is called
  once the promise of the one before it has resolved; the first rejection rejects the
  whole and no later executor is called.
\<close>

fun mapSeries :: "'s executor list \<Rightarrow> report \<Rightarrow> 's \<Rightarrow> (error + jsval list) \<times> report \<times> 's" where
  "mapSeries [] errors s = (Inr [], errors, s)"
| "mapSeries (executor # rest) errors s =
     (case executor errors s of
        (Inl e, errors', s') \<Rightarrow> (Inl e, errors', s')
      | (Inr x, errors', s') \<Rightarrow>
          (case mapSeries rest errors' s' of
             (Inl e, errors'', s'') \<Rightarrow> (Inl e, errors'', s'')
           | (Inr xs, errors'', s'') \<Rightarrow> (Inr (x # xs), errors'', s'')))"

text \<open>
  \<open>createValidator perAttributeRules wholeData currentData s\<close> is the call
  \<^verbatim>\<open>createValidator(perAttributeRules, wholeData)(currentData)\<close> made in the world
  \<open>s\<close>: it builds the closure and invokes it once. The closure reassigns its variable
  \<^verbatim>\<open>wholeData\<close> first; the record \<open>validator\<close> below keeps that variable between
  invocations of one closure.
\<close>

fun createValidator :: "(string \<times> 's rulespec) list \<Rightarrow> jsval \<Rightarrow> jsval \<Rightarrow> 's \<Rightarrow> (error + jsval) \<times> 's" where
  "createValidator perAttributeRules wholeData0 currentData s =
    (let wholeData = (if isEmpty wholeData0 then currentData else wholeData0) in
     case sequenceE (map (\<lambda>(keyToValidate, rulesForKey).
            case getProp currentData keyToValidate of
              Inl e \<Rightarrow> Inl e
            | Inr dataToValidate \<Rightarrow> Inr
               (case rulesForKey of
                  Tree t \<Rightarrow>
                    if \<not> isPlainObject dataToValidate
                    then (\<lambda>errors s1.
                            (Inr (Str (''Property '' @ keyToValidate @ '' must be an object'')),
                             errors, s1))
                    else (\<lambda>errors s1.
                            thenStore keyToValidate errors
                              (createValidator t wholeData dataToValidate s1))
                | Rules rs \<Rightarrow>
                    (\<lambda>errors s1.
                       thenStore keyToValidate errors
                         (firstError rs dataToValidate wholeData s1))))
           perAttributeRules)
     of Inl e \<Rightarrow> (Inl e, s)
      | Inr executors \<Rightarrow>
          (case mapSeries executors [] s of
             (Inl e, errors, s') \<Rightarrow> (Inl e, s')
           | (Inr results, errors, s') \<Rightarrow> (Inr (returnUndefinedOnSuccess errors), s')))"

declare createValidator.simps [simp del]

text \<open>
  The closure returned by \<^verbatim>\<open>createValidator(perAttributeRules, wholeData)\<close>: the
  rule tree and the variable \<^verbatim>\<open>wholeData\<close>, which every invocation reassigns
  (\<^verbatim>\<open>wholeData = isEmpty(wholeData) ? currentData : wholeData\<close>). \<open>invoke\<close> returns the
  outcome of the call and the closure after it. Closures built for nested trees are
  invoked once and dropped, which is what \<open>createValidator\<close> above computes.
\<close>

record 's validator =
  perAttributeRules :: "(string \<times> 's rulespec) list"
  wholeData :: jsval

definition newValidator :: "(string \<times> 's rulespec) list \<Rightarrow> jsval \<Rightarrow> 's validator" where
  "newValidator tree seed = \<lparr>perAttributeRules = tree, wholeData = seed\<rparr>"

definition invoke :: "'s validator \<Rightarrow> jsval \<Rightarrow> 's \<Rightarrow> ((error + jsval) \<times> 's) \<times> 's validator" where
  "invoke v currentData s =
     (createValidator (perAttributeRules v) (wholeData v) currentData s,
      v\<lparr>wholeData := (if isEmpty (wholeData v) then currentData else wholeData v)\<rparr>)"

section \<open>The combinators of util.js that build validators\<close>

text \<open>
  \<^verbatim>\<open>msgFor\<close> and \<^verbatim>\<open>when\<close> call \<^verbatim>\<open>createValidator(rules)\<close> with one argument, so
  the parameter \<^verbatim>\<open>wholeData\<close> takes its default \<^verbatim>\<open>{}\<close>.
\<close>

definition msgFor :: "'s rulespec \<Rightarrow> jsval \<Rightarrow> 's rule" where
  "msgFor rules msg = (\<lambda>val data s.
     let validatePromise =
           (case rules of
              Tree t \<Rightarrow> createValidator t (Obj []) val s
            | Rules rs \<Rightarrow> firstError (Sequence (castArray rs)) val data s)
     in case validatePromise of
          (Inl e, s') \<Rightarrow> (Inl e, s')
        | (Inr validationResult, s') \<Rightarrow>
            (Inr (if containsError validationResult then msg else Undefined), s'))"

fun evalPredicate :: "'s predicate \<Rightarrow> 's rule" where
  "evalPredicate (PredFunction f) val data s = f val data s"
| "evalPredicate (PredValue v) val data s = (Inr v, s)"
| "evalPredicate (PredPromise p) val data s = (p, s)"

definition when' :: "'s predicate \<Rightarrow> 's rulespec \<Rightarrow> 's rule" where
  "when' predicate rules = (\<lambda>val data s.
     case evalPredicate predicate val data s of
       (Inl e, s') \<Rightarrow> (Inl e, s')
     | (Inr shouldExecute, s') \<Rightarrow>
         if truthy shouldExecute
         then (case rules of
                 Tree t \<Rightarrow> createValidator t (Obj []) val s'
               | Rules rs \<Rightarrow> firstError rs val data s')
         else (Inr Undefined, s'))"

section \<open>Rules that record their invocations\<close>

text \<open>
  A rule whose side effect is observable: the world is the list of the argument pairs
  \<^verbatim>\<open>(value, data)\<close> of the invocations made so far, and \<open>spy result\<close> adds its own
  pair and resolves with \<open>result\<close>.
\<close>

definition spy :: "jsval \<Rightarrow> (jsval \<times> jsval) list rule" where
  "spy result = (\<lambda>val data seen. (Inr result, seen @ [(val, data)]))"

section \<open>What the properties are stated with\<close>

text \<open>
  \<open>passAll rules val data s\<close> is the world reached when the rules, invoked one after
  the other on \<^verbatim>\<open>(val, data)\<close>, each in the world the one before left, all resolve
  with \<^verbatim>\<open>undefined\<close>; it is \<open>None\<close> as soon as one of them does not.
\<close>

fun passAll :: "'s rule list \<Rightarrow> jsval \<Rightarrow> jsval \<Rightarrow> 's \<Rightarrow> 's option" where
  "passAll [] val data s = Some s"
| "passAll (rule # rest) val data s =
     (case rule val data s of
        (Inl e, s') \<Rightarrow> None
      | (Inr err, s') \<Rightarrow> if err = Undefined then passAll rest val data s' else None)"

text \<open>
  The results of the rules themselves, one per rule and in order, each rule invoked in
  the world the one before left; a rejection ends the run.
\<close>

fun ruleResults :: "'s rule list \<Rightarrow> jsval \<Rightarrow> jsval \<Rightarrow> 's \<Rightarrow> (error + jsval list) \<times> 's" where
  "ruleResults [] val data s = (Inr [], s)"
| "ruleResults (rule # rest) val data s =
     (case rule val data s of
        (Inl e, s') \<Rightarrow> (Inl e, s')
      | (Inr x, s') \<Rightarrow>
          (case ruleResults rest val data s' of
             (Inl e, s'') \<Rightarrow> (Inl e, s'')
           | (Inr xs, s'') \<Rightarrow> (Inr (x # xs), s'')))"

text \<open>
  The executor that \<^verbatim>\<open>createValidator\<close> builds for one attribute, and the array of
  them, named so that lemmas can speak of them; \<open>createValidator_executors\<close> below
  shows that they are the ones inside \<open>createValidator\<close>.
\<close>

definition executorFor :: "jsval \<Rightarrow> string \<Rightarrow> 's rulespec \<Rightarrow> jsval \<Rightarrow> 's executor" where
  "executorFor wd keyToValidate rulesForKey dataToValidate =
     (case rulesForKey of
        Tree t \<Rightarrow>
          if \<not> isPlainObject dataToValidate
          then (\<lambda>errors s1.
                  (Inr (Str (''Property '' @ keyToValidate @ '' must be an object'')), errors, s1))
          else (\<lambda>errors s1.
                  thenStore keyToValidate errors (createValidator t wd dataToValidate s1))
      | Rules rs \<Rightarrow>
          (\<lambda>errors s1. thenStore keyToValidate errors (firstError rs dataToValidate wd s1)))"

definition executors :: "(string \<times> 's rulespec) list \<Rightarrow> jsval \<Rightarrow> jsval \<Rightarrow> error + 's executor list" where
  "executors tree wd currentData =
     sequenceE (map (\<lambda>(keyToValidate, rulesForKey).
                  case getProp currentData keyToValidate of
                    Inl e \<Rightarrow> Inl e
                  | Inr dataToValidate \<Rightarrow>
                      Inr (executorFor wd keyToValidate rulesForKey dataToValidate)) tree)"

text \<open>
  A report is well formed for a rule tree and the data validated when it is an object
  with at least one key, every key names an attribute of the tree and holds a defined
  value, and the value under an attribute that is a nested tree whose data is a plain
  object is a well-formed report for that tree and that data. The value under an
  attribute that has rules is whatever the rules resolved with; nothing is asked of the
  value under a nested tree whose data is not a plain object.
\<close>

fun wfReport :: "(string \<times> 's rulespec) list \<Rightarrow> jsval \<Rightarrow> jsval \<Rightarrow> bool" where
  "wfReport tree cur (Obj kvs) =
     (kvs \<noteq> [] \<and>
      list_all (\<lambda>(k, v). v \<noteq> Undefined \<and>
                 list_ex (\<lambda>(k', spec). k' = k \<and>
                            (case spec of
                               Rules rs \<Rightarrow> True
                             | Tree t \<Rightarrow>
                                 (case getProp cur k of
                                    Inl e \<Rightarrow> True
                                  | Inr d \<Rightarrow> if isPlainObject d then wfReport t d v else True)))
                         tree) kvs)"
| "wfReport tree cur _ = False"


text \<open>
  \<open>pinTree wd tree\<close> is the tree whose rules ignore their second argument and work
  on \<open>wd\<close> instead. A run that a tree and its pinned tree cannot tell apart is a run
  in which every rule of the tree was given \<open>wd\<close> as \<^verbatim>\<open>data\<close>.
\<close>

fun pinRules :: "jsval \<Rightarrow> 's rules \<Rightarrow> 's rules" where
  "pinRules wd (Single r) = Single (\<lambda>val data. r val wd)"
| "pinRules wd (Sequence rs) = Sequence (map (\<lambda>r val data. r val wd) rs)"

fun pinSpec :: "jsval \<Rightarrow> 's rulespec \<Rightarrow> 's rulespec" where
  "pinSpec wd (Rules rs) = Rules (pinRules wd rs)"
| "pinSpec wd (Tree t) = Tree (map (\<lambda>(k, spec). (k, pinSpec wd spec)) t)"

definition pinTree :: "jsval \<Rightarrow> (string \<times> 's rulespec) list \<Rightarrow> (string \<times> 's rulespec) list" where
  "pinTree wd tree = map (\<lambda>(k, spec). (k, pinSpec wd spec)) tree"

text \<open>
  What the validation of each attribute produced in one call, in order and with the
  name of the attribute: the result of \<^verbatim>\<open>firstError\<close> for an attribute that has rules,
  the result of the nested validator for an attribute that is a tree and whose data is
  a plain object, the message of the mismatch branch otherwise. Each attribute is
  validated in the world the one before it left; the list ends where a promise rejects.
\<close>

fun attributeResults :: "(string \<times> 's rulespec) list \<Rightarrow> jsval \<Rightarrow> jsval \<Rightarrow> 's \<Rightarrow> (string \<times> jsval) list" where
  "attributeResults [] wd cur s = []"
| "attributeResults ((k, spec) # rest) wd cur s =
     (case getProp cur k of
        Inl e \<Rightarrow> []
      | Inr d \<Rightarrow>
          (case spec of
             Tree t \<Rightarrow>
               if \<not> isPlainObject d
               then (k, Str (''Property '' @ k @ '' must be an object''))
                      # attributeResults rest wd cur s
               else (case createValidator t wd d s of
                       (Inl e, s') \<Rightarrow> []
                     | (Inr v, s') \<Rightarrow> (k, v) # attributeResults rest wd cur s')
           | Rules rs \<Rightarrow>
               (case firstError rs d wd s of
                  (Inl e, s') \<Rightarrow> []
                | (Inr v, s') \<Rightarrow> (k, v) # attributeResults rest wd cur s')))"

text \<open>No attribute produced an error; and the attributes that did, with what they produced.\<close>

definition noErrors :: "(string \<times> jsval) list \<Rightarrow> bool" where
  "noErrors results = list_all (\<lambda>(k, v). v = Undefined) results"

definition errorsOf :: "(string \<times> jsval) list \<Rightarrow> (string \<times> jsval) list" where
  "errorsOf results = filter (\<lambda>(k, v). v \<noteq> Undefined) results"

text \<open>
  The inputs on which two branches of the builder are not exercised: every nested tree
  of the top level meets a plain object, and no attribute of the top level is named
  \<^verbatim>\<open>__proto__\<close>. The attribute names of an object are distinct.
\<close>

definition noMismatch :: "(string \<times> 's rulespec) list \<Rightarrow> jsval \<Rightarrow> bool" where
  "noMismatch tree cur =
     list_all (\<lambda>(k, spec). case spec of
                              Rules rs \<Rightarrow> True
                            | Tree t \<Rightarrow> (case getProp cur k of
                                          Inl e \<Rightarrow> True
                                        | Inr d \<Rightarrow> isPlainObject d)) tree"

definition ownNames :: "(string \<times> 's rulespec) list \<Rightarrow> bool" where
  "ownNames tree = (distinct (map fst tree) \<and> ''__proto__'' \<notin> set (map fst tree))"

section \<open>The rule runners\<close>

lemma firstError_Nil: "firstError (Sequence []) val data s = (Inr Undefined, s)"
  by (simp add: firstError_def)

lemma firstError_chain_rejected:
  "foldl (\<lambda>acc rule. case acc of (Inl e, s') \<Rightarrow> (Inl e, s')
            | (Inr err, s') \<Rightarrow> if err \<noteq> Undefined then acc else rule val data s')
         (Inl e, s) rs = (Inl e, s)"
  by (induction rs) simp_all

lemma firstError_chain_failed:
  "err \<noteq> Undefined \<Longrightarrow>
   foldl (\<lambda>acc rule. case acc of (Inl e, s') \<Rightarrow> (Inl e, s')
            | (Inr err, s') \<Rightarrow> if err \<noteq> Undefined then acc else rule val data s')
         (Inr err, s) rs = (Inr err, s)"
  by (induction rs) simp_all

lemma firstError_Cons:
  "firstError (Sequence (rule # rest)) val data s =
     (case rule val data s of
        (Inl e, s') \<Rightarrow> (Inl e, s')
      | (Inr err, s') \<Rightarrow>
          if err \<noteq> Undefined then (Inr err, s') else firstError (Sequence rest) val data s')"
  by (simp add: firstError_def firstError_chain_rejected firstError_chain_failed
           split: prod.split sum.split)

lemma firstError_Single: "firstError (Single rule) = firstError (Sequence [rule])"
  by (simp add: firstError_def)

lemma firstError_castArray: "firstError (Sequence (castArray rs)) = firstError rs"
  by (simp add: firstError_def)

lemma firstError_append:
  "firstError (Sequence (pre @ post)) val data s =
     (case firstError (Sequence pre) val data s of
        (Inl e, s1) \<Rightarrow> (Inl e, s1)
      | (Inr err, s1) \<Rightarrow>
          if err \<noteq> Undefined then (Inr err, s1) else firstError (Sequence post) val data s1)"
proof (induction pre arbitrary: s)
  case Nil
  show ?case by (simp add: firstError_Nil)
next
  case (Cons rule pre)
  show ?case
    by (simp add: firstError_Cons Cons.IH split: prod.split sum.split)
qed

lemma firstError_passAll:
  "passAll rs val data s = Some s1 \<Longrightarrow> firstError (Sequence rs) val data s = (Inr Undefined, s1)"
proof (induction rs arbitrary: s)
  case Nil
  then show ?case by (simp add: firstError_Nil)
next
  case (Cons rule rs)
  then show ?case
    by (auto simp: firstError_Cons split: prod.splits sum.splits if_splits)
qed

text \<open>
  Claim C3. \<^verbatim>\<open>firstError\<close> runs its rules in order, each in the world the one before
  left. When the rules before the N-th all resolve with \<^verbatim>\<open>undefined\<close> and the N-th
  resolves with a defined message, \<^verbatim>\<open>firstError\<close> resolves with exactly that message
  in the world the N-th rule left: whatever rules follow, none of them has run. When
  every rule resolves with \<^verbatim>\<open>undefined\<close>, so does \<^verbatim>\<open>firstError\<close>.
\<close>

theorem firstError_short_circuit:
  "(passAll pre val data s = Some s1 \<and> rule val data s1 = (Inr msg, s2) \<and> msg \<noteq> Undefined
      \<longrightarrow> firstError (Sequence (pre @ rule # post)) val data s = (Inr msg, s2))
   \<and> (passAll rs val data s = Some s3
      \<longrightarrow> firstError (Sequence rs) val data s = (Inr Undefined, s3))"
  by (auto simp: firstError_append firstError_passAll firstError_Cons)

theorem firstError_short_circuit_witness:
  "firstError (Sequence ([spy Undefined] @ spy (Str ''too short'') # [spy (Str ''no digit'')]))
     (Str ''abc'') (Obj []) []
     = (Inr (Str ''too short''), [(Str ''abc'', Obj []), (Str ''abc'', Obj [])])
   \<and> firstError (Sequence [spy Undefined, spy Undefined]) (Str ''abc'') (Obj []) []
       = (Inr Undefined, [(Str ''abc'', Obj []), (Str ''abc'', Obj [])])"
  using firstError_short_circuit [of "[spy Undefined]" "Str ''abc''" "Obj []" "[]"
      "[(Str ''abc'', Obj [])]" "spy (Str ''too short'')" "Str ''too short''"
      "[(Str ''abc'', Obj []), (Str ''abc'', Obj [])]" "[spy (Str ''no digit'')]"
      "[spy Undefined, spy Undefined]" "[(Str ''abc'', Obj []), (Str ''abc'', Obj [])]"]
  by (simp add: spy_def)

text \<open>
  What \<^verbatim>\<open>allErrors\<close> resolves with: the results of all the rules, in order, each
  one appended by \<^verbatim>\<open>concat\<close>. Where no result is an array that is the list of the
  results, one entry per rule.
\<close>

lemma allErrors_chain:
  "foldl (\<lambda>acc rule.
            case acc of
              (Inl e, s') \<Rightarrow> (Inl e, s')
            | (Inr result, s') \<Rightarrow>
                (case rule val data s' of
                   (Inl e, s'') \<Rightarrow> (Inl e, s'')
                 | (Inr x, s'') \<Rightarrow> (Inr (concat_js result x), s'')))
         (Inr acc0, s) rs
   = (case ruleResults rs val data s of
        (Inl e, s') \<Rightarrow> (Inl e, s')
      | (Inr xs, s') \<Rightarrow> (Inr (foldl concat_js acc0 xs), s'))"
proof (induction rs arbitrary: acc0 s)
  case Nil
  show ?case by simp
next
  case (Cons rule rs)
  have rejected: "foldl (\<lambda>acc rule.
            case acc of
              (Inl e, s') \<Rightarrow> (Inl e, s')
            | (Inr result, s') \<Rightarrow>
                (case rule val data s' of
                   (Inl e, s'') \<Rightarrow> (Inl e, s'')
                 | (Inr x, s'') \<Rightarrow> (Inr (concat_js result x), s'')))
         (Inl e, s1) rs = (Inl e, s1)" for e s1
    by (induction rs) simp_all
  obtain r1 s1 where r: "rule val data s = (r1, s1)" by (cases "rule val data s")
  show ?case
  proof (cases r1)
    case (Inl e)
    then show ?thesis by (simp add: r rejected)
  next
    case (Inr x)
    then show ?thesis by (simp add: r Cons.IH split: prod.splits sum.splits)
  qed
qed

lemma allErrors_results:
  "allErrors (Sequence rs) val data s
   = (case ruleResults rs val data s of
        (Inl e, s') \<Rightarrow> (Inl e, s')
      | (Inr xs, s') \<Rightarrow> (Inr (foldl concat_js [] xs), s'))"
  by (simp add: allErrors_def allErrors_chain)

lemma concat_js_no_array:
  "list_all (\<lambda>x. \<forall>ys. x \<noteq> Arr ys) xs \<Longrightarrow> foldl concat_js acc xs = acc @ xs"
proof (induction xs arbitrary: acc)
  case Nil
  show ?case by simp
next
  case (Cons x xs)
  then have "concat_js acc x = acc @ [x]" by (cases x) (simp_all add: concat_js_def)
  with Cons show ?case by simp
qed

text \<open>
  Claim C10. \<^verbatim>\<open>allErrors\<close> appends each result with \<^verbatim>\<open>concat\<close>, which spreads an
  array. Two rules, the first of which resolves with the array of two messages and
  the second with \<^verbatim>\<open>undefined\<close>, both run, and the result has three entries, not one
  entry per rule.
\<close>

theorem allErrors_spreads_array_result:
  "allErrors (Sequence [spy (Arr [Str ''too short'', Str ''no digit'']), spy Undefined])
     (Str ''abc'') (Obj []) []
   = (Inr [Str ''too short'', Str ''no digit'', Undefined],
      [(Str ''abc'', Obj []), (Str ''abc'', Obj [])])"
  by (simp add: allErrors_def spy_def concat_js_def)

text \<open>
  Claim C4. \<^verbatim>\<open>oneOfRules\<close> tests the results with \<^verbatim>\<open>!err\<close>, not with
  \<^verbatim>\<open>containsError\<close>. Two rules that both fail, the first with the empty string and the
  second with a message: no rule resolved with \<^verbatim>\<open>undefined\<close>, and still
  \<^verbatim>\<open>oneOfRules\<close> resolves with \<^verbatim>\<open>undefined\<close>.
\<close>

theorem oneOfRules_falsy_message_passes:
  "oneOfRules (Sequence [spy (Str []), spy (Str ''too short'')]) (Str ''abc'') (Obj []) []
   = (Inr Undefined, [(Str ''abc'', Obj []), (Str ''abc'', Obj [])])"
  by (simp add: oneOfRules_def allErrors_def spy_def concat_js_def)

section \<open>The validator builder\<close>

lemma createValidator_executors:
  "createValidator tree wd0 currentData s =
     (case executors tree (if isEmpty wd0 then currentData else wd0) currentData of
        Inl e \<Rightarrow> (Inl e, s)
      | Inr ex \<Rightarrow>
          (case mapSeries ex [] s of
             (Inl e, errors, s') \<Rightarrow> (Inl e, s')
           | (Inr results, errors, s') \<Rightarrow> (Inr (returnUndefinedOnSuccess errors), s')))"
  unfolding executors_def executorFor_def
  by (subst createValidator.simps) (simp add: Let_def)

lemma executors_Nil: "executors [] wd cur = Inr []"
  by (simp add: executors_def)

lemma executors_Cons:
  "executors ((k, spec) # rest) wd cur =
     (case getProp cur k of
        Inl e \<Rightarrow> Inl e
      | Inr d \<Rightarrow> (case executors rest wd cur of
                    Inl e \<Rightarrow> Inl e
                  | Inr ex \<Rightarrow> Inr (executorFor wd k spec d # ex)))"
  by (simp add: executors_def split: sum.split)

lemma getProp_throws: "getProp cur k = Inl e \<Longrightarrow> (cur = Undefined \<or> cur = Null) \<and> e = TypeError"
  by (cases cur) auto





lemma executors_members:
  "executors tree wd cur = Inr ex \<Longrightarrow> e \<in> set ex \<Longrightarrow>
   \<exists>k spec d. (k, spec) \<in> set tree \<and> getProp cur k = Inr d \<and> e = executorFor wd k spec d"
proof (induction tree arbitrary: ex)
  case Nil
  then show ?case by (simp add: executors_Nil)
next
  case (Cons a tree)
  obtain k spec where a: "a = (k, spec)" by (cases a)
  from Cons.prems(1) obtain d ex' where d: "getProp cur k = Inr d"
    and ex': "executors tree wd cur = Inr ex'" and ex: "ex = executorFor wd k spec d # ex'"
    by (auto simp: a executors_Cons split: sum.splits)
  show ?case
  proof (cases "e = executorFor wd k spec d")
    case True
    with d show ?thesis by (auto simp: a)
  next
    case False
    with Cons.prems(2) ex have "e \<in> set ex'" by simp
    from Cons.IH [OF ex' this] show ?thesis by auto
  qed
qed


lemma mapSeries_invariant:
  assumes "\<And>e errors s r errors' s'.
             e \<in> set ex \<Longrightarrow> P errors \<Longrightarrow> e errors s = (r, errors', s') \<Longrightarrow> P errors'"
    and "P errors" and "mapSeries ex errors s = (r, errors', s')"
  shows "P errors'"
  using assms
proof (induction ex arbitrary: errors s r errors' s')
  case Nil
  then show ?case by simp
next
  case (Cons e ex)
  obtain r1 errors1 s1 where e: "e errors s = (r1, errors1, s1)" by (cases "e errors s")
  have "e \<in> set (e # ex)" by simp
  then have P1: "P errors1" using Cons.prems(2) e by (rule Cons.prems(1))
  show ?case
  proof (cases r1)
    case (Inl err)
    with Cons.prems(3) e have "errors' = errors1" by simp
    with P1 show ?thesis by simp
  next
    case (Inr x)
    obtain r2 errors2 s2 where m: "mapSeries ex errors1 s1 = (r2, errors2, s2)"
      by (cases "mapSeries ex errors1 s1")
    have "P errors2"
    proof (rule Cons.IH [OF _ P1 m])
      fix e' errors s r errors' s'
      assume a: "e' \<in> set ex" "P errors" "e' errors s = (r, errors', s')"
      from a(1) have "e' \<in> set (e # ex)" by simp
      then show "P errors'" using a(2,3) by (rule Cons.prems(1))
    qed
    moreover have "errors' = errors2"
      using Cons.prems(3) by (simp add: e Inr m split: sum.splits)
    ultimately show ?thesis by simp
  qed
qed

lemma list_all_setProp:
  "list_all Q errors \<Longrightarrow> Q (k, v) \<Longrightarrow> list_all Q (setProp errors k v)"
proof -
  have "list_all Q errors \<Longrightarrow> Q (k, v) \<Longrightarrow> list_all Q (ownProp errors k v)"
    by (induction errors) auto
  then show "list_all Q errors \<Longrightarrow> Q (k, v) \<Longrightarrow> list_all Q (setProp errors k v)"
    by simp
qed

lemma storeErrors_list_all:
  "list_all Q errors \<Longrightarrow> (v \<noteq> Undefined \<Longrightarrow> Q (k, v)) \<Longrightarrow> list_all Q (storeErrors k errors v)"
  using list_all_setProp [of Q errors k v]
  by (simp add: storeErrors_def containsError_def del: setProp.simps)

lemma thenStore_list_all:
  assumes "thenStore k errors p = (r, errors', s')" and "list_all Q errors"
    and "\<And>v s1. p = (Inr v, s1) \<Longrightarrow> v \<noteq> Undefined \<Longrightarrow> Q (k, v)"
  shows "list_all Q errors'"
proof (cases p)
  case (Pair res s1)
  show ?thesis
  proof (cases res)
    case (Inl e)
    with Pair assms(1,2) show ?thesis by (simp add: thenStore_def)
  next
    case (Inr v)
    with Pair assms(1) have "errors' = storeErrors k errors v" by (simp add: thenStore_def)
    moreover have "v \<noteq> Undefined \<Longrightarrow> Q (k, v)" using assms(3) Pair Inr by simp
    ultimately show ?thesis using assms(2) by (simp add: storeErrors_list_all)
  qed
qed

lemma createValidator_wfReport:
  "createValidator tree wd0 cur s = (Inr r, s') \<Longrightarrow> r = Undefined \<or> wfReport tree cur r"
proof (induction tree wd0 cur s arbitrary: r s' rule: createValidator.induct)
  case (1 tree wd0 cur s)
  define wd where "wd = (if isEmpty wd0 then cur else wd0)"
  define Q where "Q = (\<lambda>(k::string, v). v \<noteq> Undefined \<and>
      list_ex (\<lambda>(k', spec). k' = k \<and>
                 (case spec of
                    Rules rs \<Rightarrow> True
                  | Tree t \<Rightarrow>
                      (case getProp cur k of
                         Inl e \<Rightarrow> True
                       | Inr d \<Rightarrow> if isPlainObject d then wfReport t d v else True))) tree)"
  from "1.prems" obtain ex results errors where ex: "executors tree wd cur = Inr ex"
    and m: "mapSeries ex [] s = (Inr results, errors, s')"
    and r: "r = returnUndefinedOnSuccess errors"
    by (auto simp: createValidator_executors wd_def split: sum.splits prod.splits)
  have "list_all Q errors"
  proof (rule mapSeries_invariant [where P = "list_all Q", OF _ _ m])
    show "list_all Q []" by simp
  next
    fix e errors0 s0 r0 errors1 s1
    assume e: "e \<in> set ex" and Q0: "list_all Q errors0"
      and run: "e errors0 s0 = (r0, errors1, s1)"
    from executors_members [OF ex e] obtain k spec d where mem: "(k, spec) \<in> set tree"
      and d: "getProp cur k = Inr d" and edef: "e = executorFor wd k spec d" by blast
    show "list_all Q errors1"
    proof (cases spec)
      case (Rules rs)
      with run edef have st: "thenStore k errors0 (firstError rs d wd s0) = (r0, errors1, s1)"
        by (simp add: executorFor_def)
      have "\<And>v. v \<noteq> Undefined \<Longrightarrow> Q (k, v)"
        using mem Rules by (auto simp: Q_def list_ex_iff intro!: bexI [of _ "(k, spec)"])
      with st Q0 show ?thesis by (rule_tac thenStore_list_all) auto
    next
      case (Tree t)
      show ?thesis
      proof (cases "isPlainObject d")
        case False
        with run edef Tree have "errors1 = errors0" by (auto simp: executorFor_def)
        with Q0 show ?thesis by simp
      next
        case True
        with run edef Tree
        have st: "thenStore k errors0 (createValidator t wd d s0) = (r0, errors1, s1)"
          by (simp add: executorFor_def)
        have "Q (k, v)" if "createValidator t wd d s0 = (Inr v, s2)" "v \<noteq> Undefined" for v s2
        proof -
          have "v = Undefined \<or> wfReport t d v"
            using "1.IH" [OF wd_def mem refl d Tree _ that(1)] True by simp
          with that(2) have "wfReport t d v" by simp
          with mem Tree that(2) d True show ?thesis
            by (auto simp: Q_def list_ex_iff intro!: bexI [of _ "(k, spec)"])
        qed
        with st Q0 show ?thesis by (rule_tac thenStore_list_all) auto
      qed
    qed
  qed
  then show ?case
    using r by (auto simp: returnUndefinedOnSuccess_def Q_def)
qed

lemma mapSeries_noErrors:
  "executors tree wd cur = Inr ex \<Longrightarrow> mapSeries ex errors s = (Inr xs, errors', s') \<Longrightarrow>
   noErrors (attributeResults tree wd cur s) \<Longrightarrow> errors' = errors"
proof (induction tree arbitrary: ex errors s xs)
  case Nil
  then show ?case by (simp add: executors_Nil)
next
  case (Cons a tree)
  obtain k spec where a: "a = (k, spec)" by (cases a)
  from Cons.prems(1) obtain d ex' where d: "getProp cur k = Inr d"
    and ex': "executors tree wd cur = Inr ex'" and ex: "ex = executorFor wd k spec d # ex'"
    by (auto simp: a executors_Cons split: sum.splits)
  from Cons.prems(2) obtain x errors1 s1 xs' where
    e: "executorFor wd k spec d errors s = (Inr x, errors1, s1)"
    and rest: "mapSeries ex' errors1 s1 = (Inr xs', errors', s')"
    by (auto simp: ex split: prod.splits sum.splits)
  show ?case
  proof (cases spec)
    case (Rules rs)
    with e obtain v where v: "firstError rs d wd s = (Inr v, s1)"
      and st: "errors1 = storeErrors k errors v"
      by (auto simp: executorFor_def thenStore_def split: prod.splits sum.splits)
    from Cons.prems(3) v have "v = Undefined" and "noErrors (attributeResults tree wd cur s1)"
      by (simp_all add: a d Rules noErrors_def)
    with st Cons.IH [OF ex' rest] show ?thesis
      by (simp add: storeErrors_def containsError_def)
  next
    case (Tree t)
    from Cons.prems(3) have plain: "isPlainObject d"
      by (auto simp: a d Tree noErrors_def split: if_splits)
    with e Tree obtain v where v: "createValidator t wd d s = (Inr v, s1)"
      and st: "errors1 = storeErrors k errors v"
      by (auto simp: executorFor_def thenStore_def split: prod.splits sum.splits)
    from Cons.prems(3) v plain have "v = Undefined"
      and "noErrors (attributeResults tree wd cur s1)"
      by (simp_all add: a d Tree noErrors_def)
    with st Cons.IH [OF ex' rest] show ?thesis
      by (simp add: storeErrors_def containsError_def)
  qed
qed

lemma mapSeries_stored:
  "executors tree wd cur = Inr ex \<Longrightarrow> mapSeries ex errors s = (Inr xs, errors', s') \<Longrightarrow>
   noMismatch tree cur \<Longrightarrow>
   errors' = foldl (\<lambda>errs (k, v). storeErrors k errs v) errors (attributeResults tree wd cur s)
   \<and> map fst (attributeResults tree wd cur s) = map fst tree"
proof (induction tree arbitrary: ex errors s xs)
  case Nil
  then show ?case by (simp add: executors_Nil)
next
  case (Cons a tree)
  obtain k spec where a: "a = (k, spec)" by (cases a)
  from Cons.prems(1) obtain d ex' where d: "getProp cur k = Inr d"
    and ex': "executors tree wd cur = Inr ex'" and ex: "ex = executorFor wd k spec d # ex'"
    by (auto simp: a executors_Cons split: sum.splits)
  from Cons.prems(2) obtain x errors1 s1 xs' where
    e: "executorFor wd k spec d errors s = (Inr x, errors1, s1)"
    and rest: "mapSeries ex' errors1 s1 = (Inr xs', errors', s')"
    by (auto simp: ex split: prod.splits sum.splits)
  from Cons.prems(3) have nm: "noMismatch tree cur" by (simp add: noMismatch_def)
  note IH = Cons.IH [OF ex' rest nm]
  show ?case
  proof (cases spec)
    case (Rules rs)
    with e obtain v where "firstError rs d wd s = (Inr v, s1)"
      and "errors1 = storeErrors k errors v"
      by (auto simp: executorFor_def thenStore_def split: prod.splits sum.splits)
    with IH show ?thesis by (simp add: a d Rules)
  next
    case (Tree t)
    from Cons.prems(3) have plain: "isPlainObject d"
      by (simp add: a d Tree noMismatch_def)
    with e Tree obtain v where "createValidator t wd d s = (Inr v, s1)"
      and "errors1 = storeErrors k errors v"
      by (auto simp: executorFor_def thenStore_def split: prod.splits sum.splits)
    with IH show ?thesis by (simp add: a d Tree plain)
  qed
qed

lemma ownProp_new: "k \<notin> set (map fst errors) \<Longrightarrow> ownProp errors k v = errors @ [(k, v)]"
  by (induction errors) auto

lemma stored_errorsOf:
  "distinct (map fst results) \<Longrightarrow> ''__proto__'' \<notin> set (map fst results) \<Longrightarrow>
   set (map fst results) \<inter> set (map fst errors) = {} \<Longrightarrow>
   foldl (\<lambda>errs (k, v). storeErrors k errs v) errors results = errors @ errorsOf results"
proof (induction results arbitrary: errors)
  case Nil
  show ?case by (simp add: errorsOf_def)
next
  case (Cons a results)
  obtain k v where a: "a = (k, v)" by (cases a)
  from Cons.prems have k: "k \<noteq> ''__proto__''" "k \<notin> set (map fst errors)"
    "k \<notin> set (map fst results)" by (auto simp: a)
  have st: "storeErrors k errors v = (if v \<noteq> Undefined then errors @ [(k, v)] else errors)"
    using k(1,2) by (simp add: storeErrors_def containsError_def ownProp_new)
  have "set (map fst results) \<inter> set (map fst (storeErrors k errors v)) = {}"
    using Cons.prems(3) k(3) by (auto simp: st a)
  with Cons.IH [of "storeErrors k errors v"] Cons.prems(1,2)
  have "foldl (\<lambda>errs (k, v). storeErrors k errs v) (storeErrors k errors v) results
        = storeErrors k errors v @ errorsOf results"
    by (simp add: a)
  then show ?case by (simp add: a st errorsOf_def)
qed

lemma createValidator_noErrors:
  assumes "createValidator tree wd0 cur s = (Inr r, s')"
    and "noErrors (attributeResults tree (if isEmpty wd0 then cur else wd0) cur s)"
  shows "r = Undefined"
proof -
  define wd where "wd = (if isEmpty wd0 then cur else wd0)"
  from assms(1) obtain ex results errors where ex: "executors tree wd cur = Inr ex"
    and m: "mapSeries ex [] s = (Inr results, errors, s')"
    and r: "r = returnUndefinedOnSuccess errors"
    by (auto simp: createValidator_executors wd_def split: sum.splits prod.splits)
  from mapSeries_noErrors [OF ex m] assms(2) have "errors = []" by (simp add: wd_def)
  with r show ?thesis by (simp add: returnUndefinedOnSuccess_def)
qed

lemma createValidator_errorsOf:
  assumes "createValidator tree wd0 cur s = (Inr r, s')"
    and "noMismatch tree cur" and "ownNames tree"
  shows "r = (case errorsOf (attributeResults tree (if isEmpty wd0 then cur else wd0) cur s) of
                [] \<Rightarrow> Undefined
              | e # es \<Rightarrow> Obj (e # es))"
proof -
  define wd where "wd = (if isEmpty wd0 then cur else wd0)"
  from assms(1) obtain ex results errors where ex: "executors tree wd cur = Inr ex"
    and m: "mapSeries ex [] s = (Inr results, errors, s')"
    and r: "r = returnUndefinedOnSuccess errors"
    by (auto simp: createValidator_executors wd_def split: sum.splits prod.splits)
  from mapSeries_stored [OF ex m assms(2)]
  have st: "errors = foldl (\<lambda>errs (k, v). storeErrors k errs v) [] (attributeResults tree wd cur s)"
    and keys: "map fst (attributeResults tree wd cur s) = map fst tree" by simp_all
  from assms(3) keys have "distinct (map fst (attributeResults tree wd cur s))"
    and "''__proto__'' \<notin> set (map fst (attributeResults tree wd cur s))"
    by (simp_all add: ownNames_def)
  from stored_errorsOf [OF this, of "[]"] st
  have "errors = errorsOf (attributeResults tree wd cur s)" by simp
  with r show ?thesis
    by (simp add: returnUndefinedOnSuccess_def wd_def split: list.splits)
qed

lemma errorsOf_empty: "errorsOf results = [] \<longleftrightarrow> noErrors results"
  by (auto simp: errorsOf_def noErrors_def filter_empty_conv list_all_iff)




text \<open>
  Claim C8. The executor of a nested tree whose data is not a plain object resolves
  with the message, and nothing hands the message to \<^verbatim>\<open>storeErrors\<close>: the validator
  of \<^verbatim>\<open>{ car: { make: rule } }\<close> called with \<^verbatim>\<open>{ car: 'not-an-object' }\<close> resolves
  with \<^verbatim>\<open>undefined\<close>. The nested rule has not run (the world is unchanged).
\<close>

theorem createValidator_shape_mismatch_dropped:
  "createValidator [(''car'', Tree [(''make'', Rules (Single (spy (Str ''not a make''))))])]
     (Obj []) (Obj [(''car'', Str ''not-an-object'')]) []
   = (Inr Undefined, [])"
  by (simp add: createValidator.simps returnUndefinedOnSuccess_def)

text \<open>
  Claim C2. \<^verbatim>\<open>when\<close> and \<^verbatim>\<open>msgFor\<close> build the validator of a nested tree with
  \<^verbatim>\<open>createValidator(rules)\<close>, so \<^verbatim>\<open>wholeData\<close> starts empty there and is captured
  from the nested object. With the data \<^verbatim>\<open>{ deal: 'purchase', car: { make: 'BMW' } }\<close>
  the rule of \<^verbatim>\<open>deal\<close> is given the whole data, and the rule of \<^verbatim>\<open>make\<close> inside
  \<^verbatim>\<open>when(true, { make: rule })\<close> is given \<^verbatim>\<open>{ make: 'BMW' }\<close>; the same happens
  inside \<^verbatim>\<open>msgFor\<close>.
\<close>

theorem combinator_nested_tree_wholeData:
  "createValidator
     [(''deal'', Rules (Single (spy Undefined))),
      (''car'', Rules (Single (when' (PredValue (Bool True))
                                (Tree [(''make'', Rules (Single (spy Undefined)))]))))]
     (Obj []) (Obj [(''deal'', Str ''purchase''), (''car'', Obj [(''make'', Str ''BMW'')])]) []
   = (Inr Undefined,
      [(Str ''purchase'', Obj [(''deal'', Str ''purchase''), (''car'', Obj [(''make'', Str ''BMW'')])]),
       (Str ''BMW'', Obj [(''make'', Str ''BMW'')])])
   \<and> createValidator
     [(''car'', Rules (Single (msgFor (Tree [(''make'', Rules (Single (spy Undefined)))])
                                (Str ''Custom error message''))))]
     (Obj []) (Obj [(''deal'', Str ''purchase''), (''car'', Obj [(''make'', Str ''BMW'')])]) []
   = (Inr Undefined, [(Str ''BMW'', Obj [(''make'', Str ''BMW'')])])"
  by (simp add: createValidator.simps returnUndefinedOnSuccess_def thenStore_def
        storeErrors_def containsError_def firstError_def when'_def msgFor_def spy_def)







lemma firstError_pinRules: "firstError (pinRules wd rs) val data s = firstError rs val wd s"
  by (cases rs) (simp_all add: firstError_def foldl_map)

lemma createValidator_pinTree:
  "\<not> isEmpty wd \<Longrightarrow> createValidator (pinTree wd tree) wd cur s = createValidator tree wd cur s"
proof (induction tree wd cur s rule: createValidator.induct)
  case (1 tree wd cur s)
  have ex: "executorFor wd k (pinSpec wd spec) d = executorFor wd k spec d"
    if mem: "(k, spec) \<in> set tree" and d: "getProp cur k = Inr d" for k spec d
  proof (cases spec)
    case (Rules rs)
    then show ?thesis by (simp add: executorFor_def firstError_pinRules)
  next
    case (Tree t)
    show ?thesis
    proof (cases "isPlainObject d")
      case False
      with Tree show ?thesis by (simp add: executorFor_def)
    next
      case True
      have "createValidator (pinTree wd t) wd d s1 = createValidator t wd d s1" for s1
        using "1.IH" [OF _ mem refl d Tree _ "1.prems"] True "1.prems" by simp
      with Tree True show ?thesis by (simp add: executorFor_def pinTree_def)
    qed
  qed
  have "executors (pinTree wd tree) wd cur = executors tree wd cur"
    unfolding executors_def pinTree_def map_map
    by (rule arg_cong [where f = sequenceE], rule map_cong) (auto split: sum.splits simp: ex)
  then show ?case using "1.prems" by (simp add: createValidator_executors)
qed

lemma createValidator_capture:
  "isEmpty seed \<Longrightarrow> createValidator tree seed d1 s = createValidator tree d1 d1 s"
  by (simp add: createValidator_executors)

text \<open>
  Claim C9, as amended. A validator built with an empty seed captures the data of its
  first invocation as \<^verbatim>\<open>wholeData\<close>. When that data is not empty, the rules of the
  first invocation and of every later one are given it as \<^verbatim>\<open>data\<close>, whatever the
  later invocation is called with, and the closure stays as it is; so the same holds
  for the invocation after that one. While the captured value is empty, the closure is a
  validator with an empty seed again, and its next invocation captures anew.
\<close>

theorem wholeData_capture:
  "isEmpty seed \<Longrightarrow>
     snd (invoke (newValidator tree seed) d1 s) = newValidator tree d1
   \<and> (\<not> isEmpty d1 \<longrightarrow>
        fst (invoke (newValidator tree seed) d1 s) = createValidator (pinTree d1 tree) d1 d1 s
      \<and> invoke (newValidator tree d1) d s'
          = (createValidator (pinTree d1 tree) d1 d s', newValidator tree d1))"
  by (simp add: invoke_def newValidator_def createValidator_pinTree createValidator_capture)

theorem wholeData_capture_witness:
  "snd (invoke (newValidator [(''a'', Rules (Single (spy Undefined)))] (Obj []))
         (Obj [(''a'', Num 1)]) [])
     = newValidator [(''a'', Rules (Single (spy Undefined)))] (Obj [(''a'', Num 1)])
   \<and> fst (invoke (newValidator [(''a'', Rules (Single (spy Undefined)))] (Obj [(''a'', Num 1)]))
         (Obj [(''a'', Num 2)]) [(Num 1, Obj [(''a'', Num 1)])])
     = (Inr Undefined, [(Num 1, Obj [(''a'', Num 1)]), (Num 2, Obj [(''a'', Num 1)])])
   \<and> snd (invoke (newValidator [(''a'', Rules (Single (spy Undefined)))] (Obj [(''a'', Num 1)]))
         (Obj [(''a'', Num 2)]) [(Num 1, Obj [(''a'', Num 1)])])
     = newValidator [(''a'', Rules (Single (spy Undefined)))] (Obj [(''a'', Num 1)])"
proof -
  have seed: "isEmpty (Obj [])" by simp
  have pinned:
    "createValidator (pinTree (Obj [(''a'', Num 1)]) [(''a'', Rules (Single (spy Undefined)))])
       (Obj [(''a'', Num 1)]) (Obj [(''a'', Num 2)]) [(Num 1, Obj [(''a'', Num 1)])]
     = (Inr Undefined, [(Num 1, Obj [(''a'', Num 1)]), (Num 2, Obj [(''a'', Num 1)])])"
    by (simp add: pinTree_def createValidator.simps returnUndefinedOnSuccess_def thenStore_def
          storeErrors_def containsError_def firstError_def spy_def)
  show ?thesis
    using wholeData_capture [OF seed, where tree = "[(''a'', Rules (Single (spy Undefined)))]"
        and ?d1.0 = "Obj [(''a'', Num 1)]" and s = "[]" and d = "Obj [(''a'', Num 2)]"
        and s' = "[(Num 1, Obj [(''a'', Num 1)])]"] pinned
    by simp
qed

text \<open>
  The claim as it was stated fails when the first invocation is given an empty object:
  the second invocation captures its own data, and its rule is given \<^verbatim>\<open>{ a: 1 }\<close>, not
  the object captured first.
\<close>

theorem wholeData_recaptured_counterexample:
  "fst (invoke (snd (invoke (newValidator [(''a'', Rules (Single (spy Undefined)))] (Obj []))
                      (Obj []) []))
         (Obj [(''a'', Num 1)])
         (snd (fst (invoke (newValidator [(''a'', Rules (Single (spy Undefined)))] (Obj []))
                      (Obj []) []))))
   = (Inr Undefined, [(Undefined, Obj []), (Num 1, Obj [(''a'', Num 1)])])"
  by (simp add: invoke_def newValidator_def createValidator.simps returnUndefinedOnSuccess_def
        thenStore_def storeErrors_def containsError_def firstError_def spy_def)

section \<open>The combinators\<close>



text \<open>
  Claim C7. \<^verbatim>\<open>msgFor(rules, msg)\<close> runs a validator built for a plain mapping on the
  value, or \<^verbatim>\<open>firstError\<close> for any other rules. For a mapping: when no attribute
  produced an error, \<^verbatim>\<open>msgFor\<close> resolves with \<^verbatim>\<open>undefined\<close>; when some attribute did,
  or whenever the validator resolved with a report, which is then never empty,
  \<^verbatim>\<open>msgFor\<close> resolves with \<open>msg\<close>. For rules: when every rule resolves with
  \<^verbatim>\<open>undefined\<close>, so does \<^verbatim>\<open>msgFor\<close>; when \<^verbatim>\<open>firstError\<close> resolves with a defined
  message, whatever it is, \<^verbatim>\<open>msgFor\<close> resolves with \<open>msg\<close>.
\<close>

theorem msgFor_message:
  "(createValidator t (Obj []) val s = (Inr v, s1) \<and> noErrors (attributeResults t val val s)
      \<longrightarrow> msgFor (Tree t) msg val data s = (Inr Undefined, s1))
   \<and> (createValidator t (Obj []) val s = (Inr v, s1) \<and> noMismatch t val \<and> ownNames t
        \<and> \<not> noErrors (attributeResults t val val s)
      \<longrightarrow> msgFor (Tree t) msg val data s = (Inr msg, s1))
   \<and> (createValidator t (Obj []) val s = (Inr v, s1) \<and> wfReport t val v
      \<longrightarrow> msgFor (Tree t) msg val data s = (Inr msg, s1))
   \<and> (createValidator t (Obj []) val s = (Inr v, s1) \<longrightarrow> v = Undefined \<or> wfReport t val v)
   \<and> (passAll (castArray rs) val data s = Some s2
      \<longrightarrow> msgFor (Rules rs) msg val data s = (Inr Undefined, s2))
   \<and> (firstError rs val data s = (Inr m, s3) \<and> m \<noteq> Undefined
      \<longrightarrow> msgFor (Rules rs) msg val data s = (Inr msg, s3))"
proof (intro conjI impI)
  {
    assume a: "createValidator t (Obj []) val s = (Inr v, s1)
               \<and> noErrors (attributeResults t val val s)"
    then have "v = Undefined"
      using createValidator_noErrors [of t "Obj []" val s v s1] by simp
    with a show "msgFor (Tree t) msg val data s = (Inr Undefined, s1)"
      by (simp add: msgFor_def containsError_def)
  }
  {
    assume a: "createValidator t (Obj []) val s = (Inr v, s1) \<and> noMismatch t val \<and> ownNames t
               \<and> \<not> noErrors (attributeResults t val val s)"
    then have "v = (case errorsOf (attributeResults t val val s) of
                      [] \<Rightarrow> Undefined | e # es \<Rightarrow> Obj (e # es))"
      using createValidator_errorsOf [of t "Obj []" val s v s1] by simp
    moreover from a have "errorsOf (attributeResults t val val s) \<noteq> []"
      by (simp add: errorsOf_empty)
    ultimately have "v \<noteq> Undefined" by (auto split: list.splits)
    with a show "msgFor (Tree t) msg val data s = (Inr msg, s1)"
      by (simp add: msgFor_def containsError_def)
  }
  {
    assume a: "createValidator t (Obj []) val s = (Inr v, s1) \<and> wfReport t val v"
    then have "v \<noteq> Undefined" by auto
    with a show "msgFor (Tree t) msg val data s = (Inr msg, s1)"
      by (simp add: msgFor_def containsError_def)
  }
  {
    assume "createValidator t (Obj []) val s = (Inr v, s1)"
    then show "v = Undefined \<or> wfReport t val v" by (rule createValidator_wfReport)
  }
  {
    assume "passAll (castArray rs) val data s = Some s2"
    then have "firstError (Sequence (castArray rs)) val data s = (Inr Undefined, s2)"
      by (rule firstError_passAll)
    then show "msgFor (Rules rs) msg val data s = (Inr Undefined, s2)"
      by (simp add: msgFor_def containsError_def)
  }
  {
    assume "firstError rs val data s = (Inr m, s3) \<and> m \<noteq> Undefined"
    then show "msgFor (Rules rs) msg val data s = (Inr msg, s3)"
      by (simp add: msgFor_def firstError_castArray containsError_def)
  }
qed

theorem msgFor_message_witness:
  "msgFor (Tree [(''make'', Rules (Single (spy Undefined)))])
       (Str ''Custom error message'') (Obj [(''make'', Str ''BMW'')]) (Obj []) []
     = (Inr Undefined, [(Str ''BMW'', Obj [(''make'', Str ''BMW'')])])
   \<and> msgFor (Tree [(''make'', Rules (Single (spy (Str ''Some error''))))])
       (Str ''Custom error message'') (Obj [(''make'', Num 1)]) (Obj []) []
     = (Inr (Str ''Custom error message''), [(Num 1, Obj [(''make'', Num 1)])])
   \<and> wfReport [(''make'', Rules (Single (spy (Str ''Some error''))))]
       (Obj [(''make'', Num 1)]) (Obj [(''make'', Str ''Some error'')])
   \<and> msgFor (Rules (Sequence [spy Undefined, spy Undefined])) (Str ''Custom error message'')
       (Str ''some value'') (Obj []) []
     = (Inr Undefined, [(Str ''some value'', Obj []), (Str ''some value'', Obj [])])
   \<and> msgFor (Rules (Single (spy (Num 0)))) (Str ''Custom error message'')
       (Str ''some value'') (Obj []) []
     = (Inr (Str ''Custom error message''), [(Str ''some value'', Obj [])])"
proof -
  define passing :: "(string \<times> (jsval \<times> jsval) list rulespec) list" where
    "passing = [(''make'', Rules (Single (spy Undefined)))]"
  define failing :: "(string \<times> (jsval \<times> jsval) list rulespec) list" where
    "failing = [(''make'', Rules (Single (spy (Str ''Some error''))))]"
  define car where "car = Obj [(''make'', Str ''BMW'')]"
  define car1 where "car1 = Obj [(''make'', Num 1)]"
  have pass_run: "createValidator passing (Obj []) car [] = (Inr Undefined, [(Str ''BMW'', car)])"
    by (simp add: passing_def car_def createValidator.simps returnUndefinedOnSuccess_def
          thenStore_def storeErrors_def containsError_def firstError_def spy_def)
  have pass_results: "noErrors (attributeResults passing car car [])"
    by (simp add: passing_def car_def noErrors_def firstError_def spy_def)
  have fail_run: "createValidator failing (Obj []) car1 []
      = (Inr (Obj [(''make'', Str ''Some error'')]), [(Num 1, car1)])"
    by (simp add: failing_def car1_def createValidator.simps returnUndefinedOnSuccess_def
          thenStore_def storeErrors_def containsError_def firstError_def spy_def)
  have fail_results: "\<not> noErrors (attributeResults failing car1 car1 [])"
    by (simp add: failing_def car1_def noErrors_def firstError_def spy_def)
  have nm: "noMismatch failing car1" by (simp add: failing_def car1_def noMismatch_def)
  have own: "ownNames failing" by (simp add: failing_def ownNames_def)
  have rules_pass: "passAll (castArray (Sequence [spy Undefined, spy Undefined]))
      (Str ''some value'') (Obj []) []
      = Some [(Str ''some value'', Obj []), (Str ''some value'', Obj [])]"
    by (simp add: spy_def)
  have rule_fails: "firstError (Single (spy (Num 0))) (Str ''some value'') (Obj []) []
      = (Inr (Num 0), [(Str ''some value'', Obj [])])"
    by (simp add: firstError_def spy_def)
  have zero: "Num 0 \<noteq> Undefined" by simp
  have defined: "Obj [(''make'', Str ''Some error'')] \<noteq> Undefined" by simp
  have c1: "msgFor (Tree passing) (Str ''Custom error message'') car (Obj []) []
      = (Inr Undefined, [(Str ''BMW'', car)])"
    using msgFor_message [where t = passing and val = car and s = "[]" and v = Undefined
        and ?s1.0 = "[(Str ''BMW'', car)]" and msg = "Str ''Custom error message''"
        and data = "Obj []"] pass_run pass_results
    by blast
  have c2: "msgFor (Tree failing) (Str ''Custom error message'') car1 (Obj []) []
      = (Inr (Str ''Custom error message''), [(Num 1, car1)])"
    using msgFor_message [where t = failing and val = car1 and s = "[]"
        and v = "Obj [(''make'', Str ''Some error'')]"
        and ?s1.0 = "[(Num 1, car1)]" and msg = "Str ''Custom error message''"
        and data = "Obj []"] fail_run fail_results nm own
    by blast
  have c3: "wfReport failing car1 (Obj [(''make'', Str ''Some error'')])"
    using msgFor_message [where t = failing and val = car1 and s = "[]"
        and v = "Obj [(''make'', Str ''Some error'')]"
        and ?s1.0 = "[(Num 1, car1)]"] fail_run defined
    by blast
  have c4: "msgFor (Rules (Sequence [spy Undefined, spy Undefined]))
       (Str ''Custom error message'') (Str ''some value'') (Obj []) []
     = (Inr Undefined, [(Str ''some value'', Obj []), (Str ''some value'', Obj [])])"
    using msgFor_message [where rs = "Sequence [spy Undefined, spy Undefined]"
        and val = "Str ''some value''" and data = "Obj []" and s = "[]"
        and ?s2.0 = "[(Str ''some value'', Obj []), (Str ''some value'', Obj [])]"
        and msg = "Str ''Custom error message''"] rules_pass
    by blast
  have c5: "msgFor (Rules (Single (spy (Num 0)))) (Str ''Custom error message'')
       (Str ''some value'') (Obj []) []
     = (Inr (Str ''Custom error message''), [(Str ''some value'', Obj [])])"
    using msgFor_message [where rs = "Single (spy (Num 0))"
        and val = "Str ''some value''" and data = "Obj []" and s = "[]" and m = "Num 0"
        and ?s3.0 = "[(Str ''some value'', Obj [])]"
        and msg = "Str ''Custom error message''"] rule_fails zero
    by blast
  from c1 c2 c3 c4 c5 show ?thesis
    unfolding passing_def failing_def car_def car1_def by (intro conjI)
qed

end
